theory Spec2Isabelle
  imports Main "HOL-Library.Sublist"
begin

section \<open>Zones within a camera's field of view\<close>

text \<open>
  A shallow embedding of \<^verbatim>\<open>viseron/components/nvr/zone.py\<close>.

  Python objects are shared and mutated in place, so detected objects and zones live in a
  store and are passed around as references. A reference always points to an object
  (Python has no dangling references), hence the stores are total functions.

  The file has no \<^verbatim>\<open>try\<close>: an exception raised by a filter, by the geometry helper or
  by the dispatcher would leave the method at that point. These three are defined outside
  the file and are taken to return; only \<^verbatim>\<open>Zone.__init__\<close> can raise by itself, on the
  lookup of the camera.
\<close>

subsection \<open>Data\<close>

type_synonym obj_ref = nat
type_synonym zone_ref = nat
type_synonym frame_ref = nat
type_synonym resolution = "int \<times> int"
type_synonym polygon = "(int \<times> int) list"

text \<open>
  \<^verbatim>\<open>DetectedObject\<close> is defined outside this file. The zone reads \<^verbatim>\<open>obj.label\<close>
  and writes \<^verbatim>\<open>obj.relevant\<close> and \<^verbatim>\<open>obj.trigger_recorder\<close>; every other attribute
  (confidence, bounding box, ...) is only handed on to the filter and to the geometry
  helper, and is kept in the field \<open>extent\<close>.
\<close>

record 'e detected_object =
  label :: string
  extent :: 'e
  relevant :: bool
  trigger_recorder :: bool

text \<open>
  \<^verbatim>\<open>viseron.helpers.filter.Filter\<close> is defined outside this file. The zone calls
  \<^verbatim>\<open>filter_object(obj)\<close> and reads the property \<^verbatim>\<open>trigger_recorder\<close> (field
  \<open>filter_trigger_recorder\<close> here, the name \<open>trigger_recorder\<close> being taken by the
  detected object). A filter is an ordinary object, hence truthy, so
  \<^verbatim>\<open>self._object_filters.get(obj.label)\<close> is falsy exactly when the label has no entry.
  \<^verbatim>\<open>filter_object\<close> is taken to read the object without changing the two flags.
\<close>

record 'e label_filter =
  filter_object :: "'e detected_object \<Rightarrow> bool"
  filter_trigger_recorder :: bool

record camera =
  cam_identifier :: string
  cam_resolution :: resolution

record 'e zone =
  camera :: camera
  coordinates :: polygon
  camera_resolution :: resolution
  name :: string
  objects_in_zone :: "obj_ref list"
  object_filters :: "string \<rightharpoonup> 'e label_filter"

text \<open>The dictionary passed to \<^verbatim>\<open>dispatch_event\<close>, one field per key.\<close>

record event_data =
  data_camera_identifier :: string
  data_shared_frame :: frame_ref
  data_zone :: zone_ref
  data_objects :: "obj_ref list"

record event =
  topic :: string
  data :: event_data

text \<open>
  The state the zone's methods work on: the detected objects, the zones, and the events
  handed to \<^verbatim>\<open>vis.dispatch_event\<close> so far, oldest first.
\<close>

record 'e world =
  objs :: "obj_ref \<Rightarrow> 'e detected_object"
  zones :: "zone_ref \<Rightarrow> 'e zone"
  dispatched :: "event list"

text \<open>
  The calls \<^verbatim>\<open>filter_zone\<close> makes for one detection, in the order Python evaluates
  them, each with the detection it is made for and what it returned.
\<close>

datatype call =
  GetFilter obj_ref bool
  | FilterObject obj_ref bool
  | ObjectInPolygon obj_ref bool

datatype error = KeyError string

subsection \<open>Construction\<close>

record 'l label_config =
  config_label_label :: string
  config_label_rest :: 'l

record ('c, 'l) zone_config =
  config_coordinates :: 'c
  config_zone_name :: string
  config_zone_labels :: "'l label_config list"

record 'm nvr_config =
  config_object_detector_mask :: 'm

text \<open>
  \<^verbatim>\<open>Zone.__init__\<close>. The helper \<^verbatim>\<open>generate_numpy_from_coordinates\<close> and the
  constructor of \<^verbatim>\<open>Filter\<close> are defined elsewhere and are parameters; \<open>cameras\<close> is
  \<^verbatim>\<open>vis.data[CAMERA_DOMAIN]\<close>, whose subscript raises \<^verbatim>\<open>KeyError\<close> for an unknown
  camera. The loop over the configured labels writes the dictionary entry by entry, a
  later entry for the same label replacing an earlier one.
\<close>

definition Zone_init ::
  "('c \<Rightarrow> polygon) \<Rightarrow> (resolution \<Rightarrow> 'l label_config \<Rightarrow> 'm \<Rightarrow> 'e label_filter) \<Rightarrow>
   (string \<rightharpoonup> camera) \<Rightarrow> string \<Rightarrow> 'm nvr_config \<Rightarrow> ('c, 'l) zone_config \<Rightarrow>
   error + 'e zone" where
  "Zone_init generate_numpy_from_coordinates Filter_init cameras camera_identifier
      nvr_cfg zone_cfg =
    (case cameras camera_identifier of
      None \<Rightarrow> Inl (KeyError camera_identifier)
    | Some cam \<Rightarrow>
        Inr \<lparr>camera = cam,
             coordinates = generate_numpy_from_coordinates (config_coordinates zone_cfg),
             camera_resolution = cam_resolution cam,
             name = config_zone_name zone_cfg,
             objects_in_zone = [],
             object_filters =
               fold (\<lambda>object_filter m.
                       m(config_label_label object_filter \<mapsto>
                           Filter_init (cam_resolution cam) object_filter
                             (config_object_detector_mask nvr_cfg)))
                    (config_zone_labels zone_cfg) Map.empty\<rparr>)"

subsection \<open>filter\_zone\<close>

text \<open>
  The body of the loop of \<^verbatim>\<open>filter_zone\<close> for one detection \<open>obj\<close>: the new object
  store, what is appended to the local list \<^verbatim>\<open>objects_in_zone\<close>, and the calls made.
  \<open>object_in_polygon\<close> is \<^verbatim>\<open>helpers.object_in_polygon\<close>, defined elsewhere. The label of
  an object never changes, so the three subscripts \<^verbatim>\<open>self._object_filters[obj.label]\<close>
  find the filter that \<^verbatim>\<open>get\<close> found.
\<close>

definition filter_zone_body ::
  "(resolution \<Rightarrow> 'e detected_object \<Rightarrow> polygon \<Rightarrow> bool) \<Rightarrow> 'e zone \<Rightarrow>
   (obj_ref \<Rightarrow> 'e detected_object) \<Rightarrow> obj_ref \<Rightarrow>
   (obj_ref \<Rightarrow> 'e detected_object) \<times> obj_ref list \<times> call list" where
  "filter_zone_body object_in_polygon z \<sigma> obj =
    (case object_filters z (label (\<sigma> obj)) of
      None \<Rightarrow> (\<sigma>, [], [GetFilter obj False])
    | Some f \<Rightarrow>
        if filter_object f (\<sigma> obj) then
          if object_in_polygon (camera_resolution z) (\<sigma> obj) (coordinates z) then
            let \<sigma>1 = \<sigma>(obj := (\<sigma> obj)\<lparr>relevant := True\<rparr>);
                \<sigma>2 = (if filter_trigger_recorder f
                      then \<sigma>1(obj := (\<sigma>1 obj)\<lparr>trigger_recorder := True\<rparr>)
                      else \<sigma>1)
            in (\<sigma>2, [obj],
                [GetFilter obj True, FilterObject obj True, ObjectInPolygon obj True])
          else (\<sigma>, [],
                [GetFilter obj True, FilterObject obj True, ObjectInPolygon obj False])
        else (\<sigma>, [], [GetFilter obj True, FilterObject obj False]))"

text \<open>
  The loop \<^verbatim>\<open>for obj in objects\<close>, with the local list and the calls made so far as
  accumulators.
\<close>

fun filter_zone_loop ::
  "(resolution \<Rightarrow> 'e detected_object \<Rightarrow> polygon \<Rightarrow> bool) \<Rightarrow> 'e zone \<Rightarrow> obj_ref list \<Rightarrow>
   (obj_ref \<Rightarrow> 'e detected_object) \<Rightarrow> obj_ref list \<Rightarrow> call list \<Rightarrow>
   (obj_ref \<Rightarrow> 'e detected_object) \<times> obj_ref list \<times> call list" where
  "filter_zone_loop object_in_polygon z [] \<sigma> acc calls = (\<sigma>, acc, calls)"
| "filter_zone_loop object_in_polygon z (obj # rest) \<sigma> acc calls =
    (case filter_zone_body object_in_polygon z \<sigma> obj of
      (\<sigma>', appended, made) \<Rightarrow>
        filter_zone_loop object_in_polygon z rest \<sigma>' (acc @ appended) (calls @ made))"

subsection \<open>objects\_in\_zone\_setter\<close>

text \<open>
  Python's \<^verbatim>\<open>==\<close> on two lists: equal lengths, and at every index the two items are
  the same object or compare equal. \<^verbatim>\<open>DetectedObject.__eq__\<close> is defined outside this
  file and is the parameter \<open>obj_eq\<close>, on the objects' current values (the constant
  \<open>False\<close> function when the class does not define it).
\<close>

fun list_eq ::
  "('o \<Rightarrow> 'o \<Rightarrow> bool) \<Rightarrow> (obj_ref \<Rightarrow> 'o) \<Rightarrow> obj_ref list \<Rightarrow> obj_ref list \<Rightarrow> bool" where
  "list_eq obj_eq \<sigma> [] [] = True"
| "list_eq obj_eq \<sigma> (a # as) (b # bs) =
    ((a = b \<or> obj_eq (\<sigma> a) (\<sigma> b)) \<and> list_eq obj_eq \<sigma> as bs)"
| "list_eq obj_eq \<sigma> _ _ = False"

definition EVENT_OBJECTS_IN_ZONE :: "string \<Rightarrow> string \<Rightarrow> string" where
  "EVENT_OBJECTS_IN_ZONE camera_identifier zone_name =
    camera_identifier @ ''/zone/'' @ zone_name @ ''/objects''"

definition objects_in_zone_setter ::
  "('e detected_object \<Rightarrow> 'e detected_object \<Rightarrow> bool) \<Rightarrow> zone_ref \<Rightarrow> frame_ref \<Rightarrow>
   obj_ref list \<Rightarrow> 'e world \<Rightarrow> 'e world" where
  "objects_in_zone_setter obj_eq self shared_frame objects w =
    (if list_eq obj_eq (objs w) objects (objects_in_zone (zones w self)) then w
     else
       let z = (zones w self)\<lparr>objects_in_zone := objects\<rparr>
       in w\<lparr>zones := (zones w)(self := z),
            dispatched := dispatched w @
              [\<lparr>topic = EVENT_OBJECTS_IN_ZONE (cam_identifier (camera z)) (name z),
                data = \<lparr>data_camera_identifier = cam_identifier (camera z),
                         data_shared_frame = shared_frame,
                         data_zone = self,
                         data_objects = objects\<rparr>\<rparr>]\<rparr>)"

definition filter_zone ::
  "(resolution \<Rightarrow> 'e detected_object \<Rightarrow> polygon \<Rightarrow> bool) \<Rightarrow>
   ('e detected_object \<Rightarrow> 'e detected_object \<Rightarrow> bool) \<Rightarrow> zone_ref \<Rightarrow> frame_ref \<Rightarrow>
   obj_ref list \<Rightarrow> 'e world \<Rightarrow> 'e world" where
  "filter_zone object_in_polygon obj_eq self shared_frame objects w =
    (case filter_zone_loop object_in_polygon (zones w self) objects (objs w) [] [] of
      (\<sigma>', objects_in_zone', calls) \<Rightarrow>
        objects_in_zone_setter obj_eq self shared_frame objects_in_zone' (w\<lparr>objs := \<sigma>'\<rparr>))"

subsection \<open>Notions used in the statements\<close>

text \<open>
  What \<^verbatim>\<open>filter_zone\<close> leaves of an object it accepts: \<^verbatim>\<open>relevant\<close> is set, and
  \<^verbatim>\<open>trigger_recorder\<close> is set when the filter of the object's label asks for it.
\<close>

definition marked :: "'e zone \<Rightarrow> 'e detected_object \<Rightarrow> 'e detected_object" where
  "marked z ob =
    ob\<lparr>relevant := True,
       trigger_recorder :=
         (trigger_recorder ob \<or>
          (case object_filters z (label ob) of None \<Rightarrow> False
           | Some f \<Rightarrow> filter_trigger_recorder f))\<rparr>"

text \<open>
  The two nested conditions of the loop body, on an object's value: its label has a filter,
  the filter lets it pass, and the geometry helper finds it inside the zone's polygon.
\<close>

definition accepts ::
  "(resolution \<Rightarrow> 'e detected_object \<Rightarrow> polygon \<Rightarrow> bool) \<Rightarrow> 'e zone \<Rightarrow> 'e detected_object \<Rightarrow> bool" where
  "accepts oip z ob =
    (case object_filters z (label ob) of None \<Rightarrow> False
     | Some f \<Rightarrow> filter_object f ob \<and> oip (camera_resolution z) ob (coordinates z))"

text \<open>The first of the two conditions alone: the label has a filter, which lets the object pass.\<close>

definition passes :: "'e zone \<Rightarrow> 'e detected_object \<Rightarrow> bool" where
  "passes z ob =
    (case object_filters z (label ob) of None \<Rightarrow> False | Some f \<Rightarrow> filter_object f ob)"

text \<open>
  The order of the calls in a log: a call of the geometry helper comes right after the
  call of the filter for the same detection, which returned true, and a call of a filter
  right after the lookup for the same detection, which found one.
\<close>

definition calls_in_order :: "call list \<Rightarrow> bool" where
  "calls_in_order cs \<longleftrightarrow>
    (\<forall>i r b. i < length cs \<longrightarrow>
      (cs ! i = ObjectInPolygon r b \<longrightarrow>
         2 \<le> i \<and> cs ! (i - 1) = FilterObject r True \<and> cs ! (i - 2) = GetFilter r True) \<and>
      (cs ! i = FilterObject r b \<longrightarrow> 1 \<le> i \<and> cs ! (i - 1) = GetFilter r True))"

text \<open>
  The objects a zone holds carry the marks the zone puts on what it accepts. This holds
  for a zone as built and after every call of \<^verbatim>\<open>filter_zone\<close> (lemmas
  \<open>stored_marked_init\<close> and \<open>stored_marked_filter_zone\<close>).
\<close>

definition stored_marked :: "'e world \<Rightarrow> zone_ref \<Rightarrow> bool" where
  "stored_marked w self \<longleftrightarrow>
    (\<forall>r \<in> set (objects_in_zone (zones w self)). marked (zones w self) (objs w r) = objs w r)"

subsection \<open>A concrete zone\<close>

text \<open>
  The scenario of the specification: a square zone on a 100 x 100 frame of camera
  \<open>cam1\<close>, with a filter for persons that does not trigger the recorder and one for dogs
  that does. The filter and the geometry helper are simple stand-ins for the ones defined
  elsewhere: a confidence threshold, and the bounding box of the polygon.
\<close>

record ex_extent =
  center :: "int \<times> int"
  confidence :: nat

definition ex_object_in_polygon :: "resolution \<Rightarrow> ex_extent detected_object \<Rightarrow> polygon \<Rightarrow> bool" where
  "ex_object_in_polygon res ob poly =
    (case center (extent ob) of (x, y) \<Rightarrow>
      Min (fst ` set poly) \<le> x \<and> x \<le> Max (fst ` set poly) \<and>
      Min (snd ` set poly) \<le> y \<and> y \<le> Max (snd ` set poly))"

definition ex_Filter_init ::
  "resolution \<Rightarrow> (nat \<times> bool) label_config \<Rightarrow> unit \<Rightarrow> ex_extent label_filter" where
  "ex_Filter_init res cfg detector_mask =
    \<lparr>filter_object = (\<lambda>ob. fst (config_label_rest cfg) \<le> confidence (extent ob)),
     filter_trigger_recorder = snd (config_label_rest cfg)\<rparr>"

definition ex_camera :: camera where
  "ex_camera = \<lparr>cam_identifier = ''cam1'', cam_resolution = (100, 100)\<rparr>"

definition ex_zone_config :: "(polygon, nat \<times> bool) zone_config" where
  "ex_zone_config =
    \<lparr>config_coordinates = [(0, 0), (100, 0), (100, 100), (0, 100)],
     config_zone_name = ''yard'',
     config_zone_labels =
       [\<lparr>config_label_label = ''person'', config_label_rest = (50, False)\<rparr>,
        \<lparr>config_label_label = ''dog'', config_label_rest = (50, True)\<rparr>]\<rparr>"

definition ex_person_filter :: "ex_extent label_filter" where
  "ex_person_filter =
    ex_Filter_init (100, 100)
      \<lparr>config_label_label = ''person'', config_label_rest = (50, False)\<rparr> ()"

definition ex_dog_filter :: "ex_extent label_filter" where
  "ex_dog_filter =
    ex_Filter_init (100, 100)
      \<lparr>config_label_label = ''dog'', config_label_rest = (50, True)\<rparr> ()"

definition ex_zone :: "ex_extent zone" where
  "ex_zone =
    \<lparr>camera = ex_camera,
     coordinates = [(0, 0), (100, 0), (100, 100), (0, 100)],
     camera_resolution = (100, 100),
     name = ''yard'',
     objects_in_zone = [],
     object_filters = [''person'' \<mapsto> ex_person_filter, ''dog'' \<mapsto> ex_dog_filter]\<rparr>"

definition ex_object :: "string \<Rightarrow> int \<times> int \<Rightarrow> nat \<Rightarrow> bool \<Rightarrow> ex_extent detected_object" where
  "ex_object l c conf t =
    \<lparr>label = l, extent = \<lparr>center = c, confidence = conf\<rparr>, relevant = False,
     trigger_recorder = t\<rparr>"

definition ex_objs :: "obj_ref \<Rightarrow> ex_extent detected_object" where
  "ex_objs r =
    (if r = 0 then ex_object ''person'' (50, 50) 90 False
     else if r = 2 then ex_object ''person'' (500, 500) 90 False
     else if r = 3 then ex_object ''person'' (50, 50) 10 False
     else if r = 4 then ex_object ''person'' (60, 60) 80 True
     else if r = 5 then ex_object ''dog'' (10, 10) 99 False
     else if r = 6 then ex_object ''person'' (50, 50) 90 False
     else if r = 7 then (ex_object ''car'' (50, 50) 90 False)\<lparr>relevant := True\<rparr>
     else ex_object ''car'' (50, 50) 90 False)"

definition ex_world :: "ex_extent world" where
  "ex_world = \<lparr>objs = ex_objs, zones = (\<lambda>_. ex_zone), dispatched = []\<rparr>"

text \<open>The same world, with the zone holding a given list.\<close>

definition ex_world_holding :: "obj_ref list \<Rightarrow> ex_extent world" where
  "ex_world_holding stored =
    ex_world\<lparr>zones := (\<lambda>_. ex_zone\<lparr>objects_in_zone := stored\<rparr>)\<rparr>"

section \<open>Properties\<close>

lemma filter_zone_loop_acc:
  "filter_zone_loop oip z xs \<sigma> acc calls =
    (case filter_zone_loop oip z xs \<sigma> [] [] of
      (\<sigma>', acc', calls') \<Rightarrow> (\<sigma>', acc @ acc', calls @ calls'))"
proof (induction xs arbitrary: \<sigma> acc calls)
  case Nil
  show ?case by simp
next
  case (Cons x xs)
  obtain \<sigma>1 a1 c1 where b: "filter_zone_body oip z \<sigma> x = (\<sigma>1, a1, c1)"
    by (cases "filter_zone_body oip z \<sigma> x") auto
  obtain \<sigma>2 a2 c2 where r: "filter_zone_loop oip z xs \<sigma>1 [] [] = (\<sigma>2, a2, c2)"
    by (cases "filter_zone_loop oip z xs \<sigma>1 [] []") auto
  have "filter_zone_loop oip z xs \<sigma>1 (acc @ a1) (calls @ c1) = (\<sigma>2, (acc @ a1) @ a2, (calls @ c1) @ c2)"
    using Cons.IH [of \<sigma>1 "acc @ a1" "calls @ c1"] r by simp
  moreover have "filter_zone_loop oip z xs \<sigma>1 a1 c1 = (\<sigma>2, a1 @ a2, c1 @ c2)"
    using Cons.IH [of \<sigma>1 a1 c1] r by simp
  ultimately show ?case using b by simp
qed

lemma marked_idem: "marked z (marked z ob) = marked z ob"
  by (simp add: marked_def)

lemma label_marked: "label (marked z ob) = label ob"
  by (simp add: marked_def)

lemma filter_zone_body_store:
  "fst (filter_zone_body oip z \<sigma> x) =
    (if accepts oip z (\<sigma> x) then \<sigma>(x := marked z (\<sigma> x)) else \<sigma>)"
  by (auto simp: filter_zone_body_def accepts_def marked_def Let_def split: option.splits)

lemma filter_zone_body_appended:
  "fst (snd (filter_zone_body oip z \<sigma> x)) = (if accepts oip z (\<sigma> x) then [x] else [])"
  by (auto simp: filter_zone_body_def accepts_def Let_def split: option.splits)

lemma filter_zone_loop_ConsE:
  assumes "filter_zone_loop oip z (x # xs) \<sigma> [] [] = (\<sigma>', acc, calls)"
  obtains \<sigma>1 a1 c1 a2 c2 where
    "filter_zone_body oip z \<sigma> x = (\<sigma>1, a1, c1)"
    "filter_zone_loop oip z xs \<sigma>1 [] [] = (\<sigma>', a2, c2)"
    "acc = a1 @ a2" "calls = c1 @ c2"
proof -
  obtain \<sigma>1 a1 c1 where b: "filter_zone_body oip z \<sigma> x = (\<sigma>1, a1, c1)"
    by (cases "filter_zone_body oip z \<sigma> x") auto
  obtain \<sigma>2 a2 c2 where l: "filter_zone_loop oip z xs \<sigma>1 [] [] = (\<sigma>2, a2, c2)"
    by (cases "filter_zone_loop oip z xs \<sigma>1 [] []") auto
  have "filter_zone_loop oip z xs \<sigma>1 a1 c1 = (\<sigma>2, a1 @ a2, c1 @ c2)"
    using filter_zone_loop_acc [of oip z xs \<sigma>1 a1 c1] l by simp
  with assms b have "\<sigma>' = \<sigma>2" "acc = a1 @ a2" "calls = c1 @ c2"
    by simp_all
  with b l that show thesis by blast
qed

lemma filter_zone_loop_store:
  "filter_zone_loop oip z xs \<sigma> [] [] = (\<sigma>', acc, calls) \<Longrightarrow>
    \<sigma>' r = (if r \<in> set acc then marked z (\<sigma> r) else \<sigma> r)"
proof (induction xs arbitrary: \<sigma> \<sigma>' acc calls)
  case Nil
  then show ?case by simp
next
  case (Cons x xs)
  from Cons.prems obtain \<sigma>1 a1 c1 a2 c2 where
    b: "filter_zone_body oip z \<sigma> x = (\<sigma>1, a1, c1)" and
    l: "filter_zone_loop oip z xs \<sigma>1 [] [] = (\<sigma>', a2, c2)" and
    eq: "acc = a1 @ a2"
    by (rule filter_zone_loop_ConsE)
  have ih: "\<sigma>' r = (if r \<in> set a2 then marked z (\<sigma>1 r) else \<sigma>1 r)"
    by (rule Cons.IH [OF l])
  show ?case
  proof (cases "accepts oip z (\<sigma> x)")
    case True
    with b have "\<sigma>1 = \<sigma>(x := marked z (\<sigma> x))" "a1 = [x]"
      using filter_zone_body_store [of oip z \<sigma> x] filter_zone_body_appended [of oip z \<sigma> x]
      by simp_all
    with ih eq show ?thesis by (simp add: marked_idem)
  next
    case False
    with b have "\<sigma>1 = \<sigma>" "a1 = []"
      using filter_zone_body_store [of oip z \<sigma> x] filter_zone_body_appended [of oip z \<sigma> x]
      by simp_all
    with ih eq show ?thesis by simp
  qed
qed

lemma filter_zone_loop_accepted:
  "filter_zone_loop oip z xs \<sigma> [] [] = (\<sigma>', acc, calls) \<Longrightarrow>
    set acc = {r \<in> set xs. accepts oip z (\<sigma> r)}"
proof (induction xs arbitrary: \<sigma> \<sigma>' acc calls)
  case Nil
  then show ?case by simp
next
  case (Cons x xs)
  from Cons.prems obtain \<sigma>1 a1 c1 a2 c2 where
    b: "filter_zone_body oip z \<sigma> x = (\<sigma>1, a1, c1)" and
    l: "filter_zone_loop oip z xs \<sigma>1 [] [] = (\<sigma>', a2, c2)" and
    eq: "acc = a1 @ a2"
    by (rule filter_zone_loop_ConsE)
  have ih: "set a2 = {r \<in> set xs. accepts oip z (\<sigma>1 r)}"
    by (rule Cons.IH [OF l])
  show ?case
  proof (cases "accepts oip z (\<sigma> x)")
    case True
    with b have "\<sigma>1 = \<sigma>(x := marked z (\<sigma> x))" "a1 = [x]"
      using filter_zone_body_store [of oip z \<sigma> x] filter_zone_body_appended [of oip z \<sigma> x]
      by simp_all
    with ih eq True show ?thesis by auto
  next
    case False
    with b have "\<sigma>1 = \<sigma>" "a1 = []"
      using filter_zone_body_store [of oip z \<sigma> x] filter_zone_body_appended [of oip z \<sigma> x]
      by simp_all
    with ih eq False show ?thesis by auto
  qed
qed

lemma filter_zone_loop_subseq:
  "filter_zone_loop oip z xs \<sigma> [] [] = (\<sigma>', acc, calls) \<Longrightarrow> subseq acc xs"
proof (induction xs arbitrary: \<sigma> \<sigma>' acc calls)
  case Nil
  then show ?case by simp
next
  case (Cons x xs)
  from Cons.prems obtain \<sigma>1 a1 c1 a2 c2 where
    b: "filter_zone_body oip z \<sigma> x = (\<sigma>1, a1, c1)" and
    l: "filter_zone_loop oip z xs \<sigma>1 [] [] = (\<sigma>', a2, c2)" and
    eq: "acc = a1 @ a2"
    by (rule filter_zone_loop_ConsE)
  have ih: "subseq a2 xs"
    by (rule Cons.IH [OF l])
  from b have "a1 = [x] \<or> a1 = []"
    using filter_zone_body_appended [of oip z \<sigma> x] by (simp split: if_splits)
  with ih eq show ?case by auto
qed

lemma objects_in_zone_setter_objs:
  "objs (objects_in_zone_setter eq self sf new w) = objs w"
  by (simp add: objects_in_zone_setter_def Let_def)

lemma filter_zone_unfold:
  "filter_zone_loop oip (zones w self) objects (objs w) [] [] = (\<sigma>', acc, calls) \<Longrightarrow>
    filter_zone oip eq self sf objects w =
      objects_in_zone_setter eq self sf acc (w\<lparr>objs := \<sigma>'\<rparr>)"
  by (simp add: filter_zone_def)

lemma filter_zone_objs:
  "filter_zone_loop oip (zones w self) objects (objs w) [] [] = (\<sigma>', acc, calls) \<Longrightarrow>
    objs (filter_zone oip eq self sf objects w) = \<sigma>'"
  by (simp add: filter_zone_unfold objects_in_zone_setter_objs)

lemma filter_zone_stored:
  "filter_zone_loop oip (zones w self) objects (objs w) [] [] = (\<sigma>', acc, calls) \<Longrightarrow>
    objects_in_zone (zones (filter_zone oip eq self sf objects w) self) = acc \<or>
    objects_in_zone (zones (filter_zone oip eq self sf objects w) self) =
      objects_in_zone (zones w self)"
  by (simp add: filter_zone_unfold objects_in_zone_setter_def Let_def)

lemma filter_zone_dispatched:
  "filter_zone_loop oip (zones w self) objects (objs w) [] [] = (\<sigma>', acc, calls) \<Longrightarrow>
    e \<in> set (drop (length (dispatched w)) (dispatched (filter_zone oip eq self sf objects w))) \<Longrightarrow>
    data_objects (data e) = acc"
  by (simp add: filter_zone_unfold objects_in_zone_setter_def Let_def split: if_splits)

lemma list_eq_list_all2:
  "list_eq eq \<sigma> xs ys = list_all2 (\<lambda>a b. a = b \<or> eq (\<sigma> a) (\<sigma> b)) xs ys"
  by (induction eq \<sigma> xs ys rule: list_eq.induct) simp_all

lemma list_eq_iff_nth:
  "list_eq eq \<sigma> xs ys \<longleftrightarrow>
    length xs = length ys \<and>
    (\<forall>i<length xs. xs ! i = ys ! i \<or> eq (\<sigma> (xs ! i)) (\<sigma> (ys ! i)))"
  by (simp add: list_eq_list_all2 list_all2_conv_all_nth)

lemma list_eq_refl: "list_eq eq \<sigma> xs xs"
  by (simp add: list_eq_list_all2 list_all2_same)

lemma list_eq_trans:
  assumes "\<And>a b c. eq a b \<Longrightarrow> eq b c \<Longrightarrow> eq a c"
    and "list_eq eq \<sigma> xs ys" and "list_eq eq \<sigma> ys zs"
  shows "list_eq eq \<sigma> xs zs"
proof -
  have "(a = c \<or> eq (\<sigma> a) (\<sigma> c))"
    if "a = b \<or> eq (\<sigma> a) (\<sigma> b)" "b = c \<or> eq (\<sigma> b) (\<sigma> c)" for a b c
    using that assms(1) by blast
  then show ?thesis
    using assms(2,3) unfolding list_eq_list_all2
    by (rule list_all2_trans)
qed

lemma list_eq_cong_imp:
  assumes "\<And>r. r \<in> set xs \<union> set ys \<Longrightarrow> \<sigma>' r = \<sigma> r"
    and "list_eq eq \<sigma> xs ys"
  shows "list_eq eq \<sigma>' xs ys"
  using assms(2) unfolding list_eq_list_all2
  by (rule list.rel_mono_strong) (simp add: assms(1))

lemma objects_in_zone_setter_same:
  "list_eq eq (objs w) new (objects_in_zone (zones w self)) \<Longrightarrow>
    objects_in_zone_setter eq self sf new w = w"
  by (simp add: objects_in_zone_setter_def)

lemma objects_in_zone_setter_dispatched_length:
  "length (dispatched (objects_in_zone_setter eq self sf new w)) =
    (if list_eq eq (objs w) new (objects_in_zone (zones w self))
     then length (dispatched w) else Suc (length (dispatched w)))"
  by (simp add: objects_in_zone_setter_def Let_def)

lemma calls_in_order_Nil: "calls_in_order []"
  by (simp add: calls_in_order_def)

lemma calls_in_order_append:
  assumes "calls_in_order c1" and "calls_in_order c2"
  shows "calls_in_order (c1 @ c2)"
  unfolding calls_in_order_def
proof (intro allI impI)
  fix i r b
  assume i: "i < length (c1 @ c2)"
  show "((c1 @ c2) ! i = ObjectInPolygon r b \<longrightarrow>
         2 \<le> i \<and> (c1 @ c2) ! (i - 1) = FilterObject r True \<and>
         (c1 @ c2) ! (i - 2) = GetFilter r True) \<and>
      ((c1 @ c2) ! i = FilterObject r b \<longrightarrow> 1 \<le> i \<and> (c1 @ c2) ! (i - 1) = GetFilter r True)"
  proof (cases "i < length c1")
    case True
    then have "i - 1 < length c1" "i - 2 < length c1"
      by simp_all
    with True have "(c1 @ c2) ! i = c1 ! i" "(c1 @ c2) ! (i - 1) = c1 ! (i - 1)"
      "(c1 @ c2) ! (i - 2) = c1 ! (i - 2)"
      by (simp_all only: nth_append if_True)
    with True assms(1) show ?thesis
      unfolding calls_in_order_def by metis
  next
    case False
    define j where "j = i - length c1"
    from False i have j: "j < length c2" "i = length c1 + j"
      by (simp_all add: j_def)
    have n0: "(c1 @ c2) ! i = c2 ! j"
      using j by (simp add: nth_append)
    have n1: "(c1 @ c2) ! (i - 1) = c2 ! (j - 1)" if "1 \<le> j"
    proof -
      from j that have "i - 1 = length c1 + (j - 1)" by simp
      then show ?thesis by (simp only: nth_append_length_plus)
    qed
    have n2: "(c1 @ c2) ! (i - 2) = c2 ! (j - 2)" if "2 \<le> j"
    proof -
      from j that have "i - 2 = length c1 + (j - 2)" by simp
      then show ?thesis by (simp only: nth_append_length_plus)
    qed
    have p: "c2 ! j = ObjectInPolygon r b \<longrightarrow>
         2 \<le> j \<and> c2 ! (j - 1) = FilterObject r True \<and> c2 ! (j - 2) = GetFilter r True"
      and f: "c2 ! j = FilterObject r b \<longrightarrow> 1 \<le> j \<and> c2 ! (j - 1) = GetFilter r True"
      using assms(2) j(1) unfolding calls_in_order_def by blast+
    show ?thesis
    proof (intro conjI impI)
      assume a: "(c1 @ c2) ! i = ObjectInPolygon r b"
      with n0 p have q: "2 \<le> j" "c2 ! (j - 1) = FilterObject r True"
        "c2 ! (j - 2) = GetFilter r True" by simp_all
      from q(1) j show "2 \<le> i" by simp
      from q n1 show "(c1 @ c2) ! (i - 1) = FilterObject r True" by simp
      from q n2 show "(c1 @ c2) ! (i - 2) = GetFilter r True" by simp
    next
      assume a: "(c1 @ c2) ! i = FilterObject r b"
      with n0 f have q: "1 \<le> j" "c2 ! (j - 1) = GetFilter r True" by simp_all
      from q(1) j show "1 \<le> i" by simp
      from q n1 show "(c1 @ c2) ! (i - 1) = GetFilter r True" by simp
    qed
  qed
qed

lemma filter_zone_body_calls:
  "snd (snd (filter_zone_body oip z \<sigma> x)) =
    (case object_filters z (label (\<sigma> x)) of
      None \<Rightarrow> [GetFilter x False]
    | Some f \<Rightarrow>
        if filter_object f (\<sigma> x)
        then [GetFilter x True, FilterObject x True,
              ObjectInPolygon x (oip (camera_resolution z) (\<sigma> x) (coordinates z))]
        else [GetFilter x True, FilterObject x False])"
  by (simp add: filter_zone_body_def Let_def split: option.splits)

lemma calls_in_order_1: "calls_in_order [GetFilter x b]"
  by (simp add: calls_in_order_def)

lemma calls_in_order_2: "calls_in_order [GetFilter x True, FilterObject x b]"
  by (simp add: calls_in_order_def less_Suc_eq)

lemma calls_in_order_3:
  "calls_in_order [GetFilter x True, FilterObject x True, ObjectInPolygon x b]"
  by (auto simp: calls_in_order_def less_Suc_eq numeral_2_eq_2)

lemma filter_zone_body_in_order:
  "calls_in_order (snd (snd (filter_zone_body oip z \<sigma> x)))"
  by (simp add: filter_zone_body_calls calls_in_order_1 calls_in_order_2 calls_in_order_3
      split: option.splits)

lemma filter_zone_body_polygon_call:
  "ObjectInPolygon r b \<in> set (snd (snd (filter_zone_body oip z \<sigma> x))) \<Longrightarrow>
    r = x \<and> passes z (\<sigma> x)"
  by (auto simp: filter_zone_body_calls passes_def split: option.splits if_splits)

lemma filter_zone_body_filter_call:
  "FilterObject r b \<in> set (snd (snd (filter_zone_body oip z \<sigma> x))) \<Longrightarrow>
    r = x \<and> object_filters z (label (\<sigma> x)) \<noteq> None"
  by (auto simp: filter_zone_body_calls split: option.splits if_splits)

lemma accepts_passes: "accepts oip z ob \<Longrightarrow> passes z ob"
  by (auto simp: accepts_def passes_def split: option.splits)

lemma filter_zone_loop_in_order:
  "filter_zone_loop oip z xs \<sigma> [] [] = (\<sigma>', acc, calls) \<Longrightarrow> calls_in_order calls"
proof (induction xs arbitrary: \<sigma> \<sigma>' acc calls)
  case Nil
  then show ?case by (simp add: calls_in_order_Nil)
next
  case (Cons x xs)
  from Cons.prems obtain \<sigma>1 a1 c1 a2 c2 where
    b: "filter_zone_body oip z \<sigma> x = (\<sigma>1, a1, c1)" and
    l: "filter_zone_loop oip z xs \<sigma>1 [] [] = (\<sigma>', a2, c2)" and
    eq: "calls = c1 @ c2"
    by (rule filter_zone_loop_ConsE)
  have "calls_in_order c1"
    using filter_zone_body_in_order [of oip z \<sigma> x] b by simp
  moreover have "calls_in_order c2"
    by (rule Cons.IH [OF l])
  ultimately show ?case
    unfolding eq by (rule calls_in_order_append)
qed

lemma filter_zone_loop_no_polygon_call:
  "filter_zone_loop oip z xs \<sigma> [] [] = (\<sigma>', acc, calls) \<Longrightarrow> \<not> passes z (\<sigma> r) \<Longrightarrow>
    ObjectInPolygon r b \<notin> set calls"
proof (induction xs arbitrary: \<sigma> \<sigma>' acc calls)
  case Nil
  then show ?case by simp
next
  case (Cons x xs)
  from Cons.prems(1) obtain \<sigma>1 a1 c1 a2 c2 where
    b: "filter_zone_body oip z \<sigma> x = (\<sigma>1, a1, c1)" and
    l: "filter_zone_loop oip z xs \<sigma>1 [] [] = (\<sigma>', a2, c2)" and
    eq: "calls = c1 @ c2"
    by (rule filter_zone_loop_ConsE)
  have c1: "ObjectInPolygon r b \<notin> set c1"
    using filter_zone_body_polygon_call [of r b oip z \<sigma> x] b Cons.prems(2) by auto
  have "\<sigma>1 r = \<sigma> r"
  proof (cases "r = x")
    case True
    with Cons.prems(2) have "\<not> accepts oip z (\<sigma> x)"
      using accepts_passes by blast
    then show ?thesis
      using filter_zone_body_store [of oip z \<sigma> x] b by simp
  next
    case False
    then show ?thesis
      using filter_zone_body_store [of oip z \<sigma> x] b by (simp split: if_splits)
  qed
  with Cons.prems(2) have "\<not> passes z (\<sigma>1 r)" by simp
  then have "ObjectInPolygon r b \<notin> set c2"
    by (rule Cons.IH [OF l])
  with c1 eq show ?case by simp
qed

lemma filter_zone_loop_no_filter_call:
  "filter_zone_loop oip z xs \<sigma> [] [] = (\<sigma>', acc, calls) \<Longrightarrow>
    object_filters z (label (\<sigma> r)) = None \<Longrightarrow> FilterObject r b \<notin> set calls"
proof (induction xs arbitrary: \<sigma> \<sigma>' acc calls)
  case Nil
  then show ?case by simp
next
  case (Cons x xs)
  from Cons.prems(1) obtain \<sigma>1 a1 c1 a2 c2 where
    b: "filter_zone_body oip z \<sigma> x = (\<sigma>1, a1, c1)" and
    l: "filter_zone_loop oip z xs \<sigma>1 [] [] = (\<sigma>', a2, c2)" and
    eq: "calls = c1 @ c2"
    by (rule filter_zone_loop_ConsE)
  have c1: "FilterObject r b \<notin> set c1"
    using filter_zone_body_filter_call [of r b oip z \<sigma> x] b Cons.prems(2) by auto
  have "label (\<sigma>1 r) = label (\<sigma> r)"
    using filter_zone_body_store [of oip z \<sigma> x] b by (simp add: label_marked split: if_splits)
  with Cons.prems(2) have "object_filters z (label (\<sigma>1 r)) = None" by simp
  then have "FilterObject r b \<notin> set c2"
    by (rule Cons.IH [OF l])
  with c1 eq show ?case by simp
qed

lemma marked_zone_cong [simp]: "marked (z\<lparr>objects_in_zone := l\<rparr>) = marked z"
  by (rule ext) (simp add: marked_def)

lemma filter_zone_body_zone_cong:
  "filter_zone_body oip (z\<lparr>objects_in_zone := l\<rparr>) \<sigma> x = filter_zone_body oip z \<sigma> x"
  by (auto simp: filter_zone_body_def split: option.splits)

lemma filter_zone_loop_zone_cong:
  "filter_zone_loop oip (z\<lparr>objects_in_zone := l\<rparr>) xs \<sigma> acc calls =
    filter_zone_loop oip z xs \<sigma> acc calls"
  by (induction xs arbitrary: \<sigma> acc calls) (simp_all add: filter_zone_body_zone_cong)

lemma objects_in_zone_setter_zone:
  "zones (objects_in_zone_setter eq self sf new w) self =
    (zones w self)\<lparr>objects_in_zone :=
      (if list_eq eq (objs w) new (objects_in_zone (zones w self))
       then objects_in_zone (zones w self) else new)\<rparr>"
  by (simp add: objects_in_zone_setter_def Let_def)

text \<open>Two updates in a row, with nothing changing the objects in between.\<close>

lemma objects_in_zone_setter_twice:
  assumes trans: "\<And>a b c. eq a b \<Longrightarrow> eq b c \<Longrightarrow> eq a c"
    and same: "list_eq eq (objs w) new2 new1"
  shows "objects_in_zone_setter eq self sf2 new2 (objects_in_zone_setter eq self sf1 new1 w) =
    objects_in_zone_setter eq self sf1 new1 w"
proof (rule objects_in_zone_setter_same)
  let ?w1 = "objects_in_zone_setter eq self sf1 new1 w"
  have "list_eq eq (objs w) new1 (objects_in_zone (zones ?w1 self))"
    by (simp add: objects_in_zone_setter_zone list_eq_refl)
  with trans same have "list_eq eq (objs w) new2 (objects_in_zone (zones ?w1 self))"
    by (rule list_eq_trans)
  then show "list_eq eq (objs ?w1) new2 (objects_in_zone (zones ?w1 self))"
    by (simp add: objects_in_zone_setter_objs)
qed

lemma stored_marked_filter_zone:
  assumes "stored_marked w self"
  shows "stored_marked (filter_zone oip eq self sf objects w) self"
proof -
  obtain \<sigma>' acc calls where
    l: "filter_zone_loop oip (zones w self) objects (objs w) [] [] = (\<sigma>', acc, calls)"
    by (cases "filter_zone_loop oip (zones w self) objects (objs w) [] []") auto
  let ?z = "zones w self"
  have st: "\<sigma>' r = (if r \<in> set acc then marked ?z (objs w r) else objs w r)" for r
    by (rule filter_zone_loop_store [OF l])
  have m: "marked ?z (\<sigma>' r) = \<sigma>' r"
    if "r \<in> set acc \<or> r \<in> set (objects_in_zone ?z)" for r
    using that assms st [of r] by (auto simp: stored_marked_def marked_idem)
  show ?thesis
    unfolding stored_marked_def filter_zone_unfold [OF l]
    by (auto simp: objects_in_zone_setter_zone objects_in_zone_setter_objs m)
qed

lemma stored_marked_init:
  "Zone_init gen Filter_init cameras cid nvr_cfg zone_cfg = Inr z \<Longrightarrow> zones w self = z \<Longrightarrow>
    stored_marked w self"
proof -
  assume "Zone_init gen Filter_init cameras cid nvr_cfg zone_cfg = Inr z"
  then have "objects_in_zone z = []"
    by (auto simp: Zone_init_def split: option.splits)
  moreover assume "zones w self = z"
  ultimately show ?thesis
    by (simp add: stored_marked_def)
qed

subsection \<open>The concrete zone, evaluated\<close>

lemmas ex_defs = ex_zone_def ex_objs_def ex_world_def ex_object_def ex_Filter_init_def
  ex_person_filter_def ex_dog_filter_def ex_object_in_polygon_def ex_camera_def
  filter_zone_body_def

lemma ex_loop:
  "filter_zone_loop ex_object_in_polygon (zones ex_world 1) [0, 1, 2, 3, 5] (objs ex_world) [] [] =
    (ex_objs(0 := marked ex_zone (ex_objs 0), 5 := marked ex_zone (ex_objs 5)), [0, 5],
     [GetFilter 0 True, FilterObject 0 True, ObjectInPolygon 0 True,
      GetFilter 1 False,
      GetFilter 2 True, FilterObject 2 True, ObjectInPolygon 2 False,
      GetFilter 3 True, FilterObject 3 False,
      GetFilter 5 True, FilterObject 5 True, ObjectInPolygon 5 True])"
  by (simp add: ex_defs marked_def)

lemma ex_loop_flagged:
  "filter_zone_loop ex_object_in_polygon (zones ex_world 1) [4, 7] (objs ex_world) [] [] =
    (ex_objs(4 := marked ex_zone (ex_objs 4)), [4],
     [GetFilter 4 True, FilterObject 4 True, ObjectInPolygon 4 True, GetFilter 7 False])"
  by (simp add: ex_defs marked_def)

lemma ex_first_loop:
  "filter_zone_loop ex_object_in_polygon (zones ex_world 1) [0, 1] (objs ex_world) [] [] =
    (ex_objs(0 := marked ex_zone (ex_objs 0)), [0],
     [GetFilter 0 True, FilterObject 0 True, ObjectInPolygon 0 True, GetFilter 1 False])"
  by (simp add: ex_defs marked_def)

lemma ex_first:
  "filter_zone ex_object_in_polygon (=) 1 7 [0, 1] ex_world =
    \<lparr>objs = ex_objs(0 := marked ex_zone (ex_objs 0)),
     zones = (\<lambda>_. ex_zone)(1 := ex_zone\<lparr>objects_in_zone := [0]\<rparr>),
     dispatched =
       [\<lparr>topic = ''cam1/zone/yard/objects'',
         data = \<lparr>data_camera_identifier = ''cam1'', data_shared_frame = 7, data_zone = 1,
                  data_objects = [0]\<rparr>\<rparr>]\<rparr>"
  using filter_zone_unfold [OF ex_first_loop, of "(=)" 7]
  by (simp add: objects_in_zone_setter_def EVENT_OBJECTS_IN_ZONE_def ex_world_def ex_zone_def
      ex_camera_def)

lemma ex_second_loop:
  "filter_zone_loop ex_object_in_polygon
     (zones (filter_zone ex_object_in_polygon (=) 1 7 [0, 1] ex_world) 1) [6]
     (objs (filter_zone ex_object_in_polygon (=) 1 7 [0, 1] ex_world)) [] [] =
    (ex_objs(0 := marked ex_zone (ex_objs 0), 6 := marked ex_zone (ex_objs 6)), [6],
     [GetFilter 6 True, FilterObject 6 True, ObjectInPolygon 6 True])"
  unfolding ex_first by (simp add: ex_defs marked_def)

section \<open>The claims\<close>

text \<open>
  C1. For every frame reference and batch of detections, the list \<^verbatim>\<open>filter_zone\<close>
  accepts keeps the order of the batch: it is a subsequence of the batch, made of the
  detections the zone accepts, and it is this list that is stored as
  \<^verbatim>\<open>objects_in_zone\<close> and carried by the event, when the stored list changes.
\<close>

theorem filter_zone_keeps_input_order:
  assumes "filter_zone_loop oip (zones w self) objects (objs w) [] [] = (\<sigma>', acc, calls)"
  shows "subseq acc objects \<and>
    set acc = {r \<in> set objects. accepts oip (zones w self) (objs w r)} \<and>
    (objects_in_zone (zones (filter_zone oip eq self sf objects w) self) = acc \<or>
     objects_in_zone (zones (filter_zone oip eq self sf objects w) self) =
       objects_in_zone (zones w self)) \<and>
    (\<forall>e \<in> set (drop (length (dispatched w))
                 (dispatched (filter_zone oip eq self sf objects w))).
       data_objects (data e) = acc)"
proof -
  have "subseq acc objects"
    using assms by (rule filter_zone_loop_subseq)
  moreover have "set acc = {r \<in> set objects. accepts oip (zones w self) (objs w r)}"
    using assms by (rule filter_zone_loop_accepted)
  moreover note filter_zone_stored [OF assms, of eq sf]
  moreover have "\<forall>e \<in> set (drop (length (dispatched w))
                 (dispatched (filter_zone oip eq self sf objects w))).
       data_objects (data e) = acc"
    using filter_zone_dispatched [OF assms] by blast
  ultimately show ?thesis by blast
qed

theorem filter_zone_keeps_input_order_witness:
  "filter_zone_loop ex_object_in_polygon (zones ex_world 1) [0, 1, 2, 3, 5] (objs ex_world) [] [] =
    (ex_objs(0 := marked ex_zone (ex_objs 0), 5 := marked ex_zone (ex_objs 5)), [0, 5],
     [GetFilter 0 True, FilterObject 0 True, ObjectInPolygon 0 True,
      GetFilter 1 False,
      GetFilter 2 True, FilterObject 2 True, ObjectInPolygon 2 False,
      GetFilter 3 True, FilterObject 3 False,
      GetFilter 5 True, FilterObject 5 True, ObjectInPolygon 5 True]) \<and>
   subseq [0, 5] [0, 1, 2, 3, 5 :: nat] \<and>
   set [0, 5] = {r \<in> set [0, 1, 2, 3, 5]. accepts ex_object_in_polygon (zones ex_world 1) (objs ex_world r)}"
  using filter_zone_keeps_input_order [OF ex_loop, of "(=)" 7] ex_loop by blast

text \<open>
  C2. A detection whose label has no entry in \<^verbatim>\<open>object_filters\<close> is never in the
  accepted list, wherever it lies and whatever its other attributes are, and no event
  dispatched by the call lists it.
\<close>

theorem filter_zone_unfiltered_label_excluded:
  assumes "filter_zone_loop oip (zones w self) objects (objs w) [] [] = (\<sigma>', acc, calls)"
    and "object_filters (zones w self) (label (objs w r)) = None"
  shows "r \<notin> set acc \<and>
    (\<forall>e \<in> set (drop (length (dispatched w))
                 (dispatched (filter_zone oip eq self sf objects w))).
       r \<notin> set (data_objects (data e)))"
proof -
  have "\<not> accepts oip (zones w self) (objs w r)"
    using assms(2) by (simp add: accepts_def)
  then have "r \<notin> set acc"
    using filter_zone_loop_accepted [OF assms(1)] by simp
  then show ?thesis
    using filter_zone_dispatched [OF assms(1)] by blast
qed

theorem filter_zone_unfiltered_label_excluded_witness:
  "object_filters (zones ex_world 1) (label (objs ex_world 1)) = None \<and>
   fst (snd (filter_zone_loop ex_object_in_polygon (zones ex_world 1) [0, 1, 2, 3, 5]
     (objs ex_world) [] [])) = [0, 5] \<and> 1 \<notin> set [0, 5 :: nat]"
proof -
  have h: "object_filters (zones ex_world 1) (label (objs ex_world 1)) = None"
    by (simp add: ex_defs)
  show ?thesis
    using filter_zone_unfiltered_label_excluded [OF ex_loop h, of "(=)" 7] h ex_loop by simp
qed

text \<open>
  C3. \<^verbatim>\<open>filter_zone\<close> changes only the objects it accepts: every other object of the
  store is left as it was. In particular a detection that passes the filter of its label
  and is not inside the polygon is not accepted, and its two flags keep their values.
\<close>

theorem filter_zone_rejected_untouched:
  assumes "filter_zone_loop oip (zones w self) objects (objs w) [] [] = (\<sigma>', acc, calls)"
  shows "(\<forall>r. r \<notin> set acc \<longrightarrow> objs (filter_zone oip eq self sf objects w) r = objs w r) \<and>
    (\<forall>r f. object_filters (zones w self) (label (objs w r)) = Some f \<and>
           filter_object f (objs w r) \<and>
           \<not> oip (camera_resolution (zones w self)) (objs w r) (coordinates (zones w self)) \<longrightarrow>
       r \<notin> set acc \<and>
       relevant (objs (filter_zone oip eq self sf objects w) r) = relevant (objs w r) \<and>
       trigger_recorder (objs (filter_zone oip eq self sf objects w) r) =
         trigger_recorder (objs w r))"
proof -
  have untouched: "objs (filter_zone oip eq self sf objects w) r = objs w r" if "r \<notin> set acc" for r
    using that filter_zone_loop_store [OF assms, of r] filter_zone_objs [OF assms, of eq sf]
    by simp
  have "r \<notin> set acc"
    if "object_filters (zones w self) (label (objs w r)) = Some f"
      and "\<not> oip (camera_resolution (zones w self)) (objs w r) (coordinates (zones w self))"
    for r f
  proof -
    have "\<not> accepts oip (zones w self) (objs w r)"
      using that by (simp add: accepts_def)
    then show ?thesis
      using filter_zone_loop_accepted [OF assms] by simp
  qed
  with untouched show ?thesis by simp
qed

theorem filter_zone_rejected_untouched_witness:
  "object_filters (zones ex_world 1) (label (objs ex_world 2)) = Some ex_person_filter \<and>
   filter_object ex_person_filter (objs ex_world 2) \<and>
   \<not> ex_object_in_polygon (camera_resolution (zones ex_world 1)) (objs ex_world 2)
       (coordinates (zones ex_world 1)) \<and>
   2 \<notin> set [0, 5 :: nat] \<and>
   objs (filter_zone ex_object_in_polygon (=) 1 7 [0, 1, 2, 3, 5] ex_world) 2 = objs ex_world 2 \<and>
   relevant (objs (filter_zone ex_object_in_polygon (=) 1 7 [0, 1, 2, 3, 5] ex_world) 2) =
     relevant (objs ex_world 2)"
proof -
  have h: "object_filters (zones ex_world 1) (label (objs ex_world 2)) = Some ex_person_filter \<and>
      filter_object ex_person_filter (objs ex_world 2) \<and>
      \<not> ex_object_in_polygon (camera_resolution (zones ex_world 1)) (objs ex_world 2)
          (coordinates (zones ex_world 1))"
    by (simp add: ex_defs)
  have "2 \<notin> set [0, 5 :: nat]" by simp
  then have "objs (filter_zone ex_object_in_polygon (=) 1 7 [0, 1, 2, 3, 5] ex_world) 2 =
      objs ex_world 2"
    using filter_zone_rejected_untouched [OF ex_loop, of "(=)" 7] by blast
  with h show ?thesis by simp
qed

text \<open>
  C9. \<^verbatim>\<open>filter_zone\<close> never clears a flag: for every object, a \<^verbatim>\<open>relevant\<close> or
  \<^verbatim>\<open>trigger_recorder\<close> flag that is set before the call is set after it.
\<close>

theorem filter_zone_never_clears_flags:
  "(relevant (objs w r) \<longrightarrow> relevant (objs (filter_zone oip eq self sf objects w) r)) \<and>
   (trigger_recorder (objs w r) \<longrightarrow>
      trigger_recorder (objs (filter_zone oip eq self sf objects w) r))"
proof -
  obtain \<sigma>' acc calls where
    l: "filter_zone_loop oip (zones w self) objects (objs w) [] [] = (\<sigma>', acc, calls)"
    by (cases "filter_zone_loop oip (zones w self) objects (objs w) [] []") auto
  have "objs (filter_zone oip eq self sf objects w) r =
      (if r \<in> set acc then marked (zones w self) (objs w r) else objs w r)"
    using filter_zone_loop_store [OF l, of r] filter_zone_objs [OF l, of eq sf] by simp
  then show ?thesis by (simp add: marked_def)
qed

theorem filter_zone_never_clears_flags_witness:
  "relevant (objs ex_world 7) \<and>
   relevant (objs (filter_zone ex_object_in_polygon (=) 1 7 [4, 7] ex_world) 7) \<and>
   trigger_recorder (objs ex_world 4) \<and>
   trigger_recorder (objs (filter_zone ex_object_in_polygon (=) 1 7 [4, 7] ex_world) 4)"
proof -
  have "relevant (objs ex_world 7)" "trigger_recorder (objs ex_world 4)"
    by (simp_all add: ex_defs)
  then show ?thesis
    using filter_zone_never_clears_flags [of ex_world 7 ex_object_in_polygon "(=)" 1 7 "[4, 7]"]
      filter_zone_never_clears_flags [of ex_world 4 ex_object_in_polygon "(=)" 1 7 "[4, 7]"]
    by blast
qed

text \<open>
  C5, as the code has it. The claim says that after \<^verbatim>\<open>filter_zone\<close> the
  \<^verbatim>\<open>trigger_recorder\<close> flag of an accepted object is set if and only if the filter of
  its label has \<^verbatim>\<open>trigger_recorder\<close>. The code only ever sets the flag, so an object
  that enters the call with the flag set keeps it under a filter that does not trigger:
  object 4 of the concrete zone.
\<close>

theorem filter_zone_trigger_recorder_counterexample:
  "filter_zone_loop ex_object_in_polygon (zones ex_world 1) [4, 7] (objs ex_world) [] [] =
    (ex_objs(4 := marked ex_zone (ex_objs 4)), [4],
     [GetFilter 4 True, FilterObject 4 True, ObjectInPolygon 4 True, GetFilter 7 False]) \<and>
   object_filters (zones ex_world 1) (label (objs ex_world 4)) = Some ex_person_filter \<and>
   trigger_recorder (objs (filter_zone ex_object_in_polygon (=) 1 7 [4, 7] ex_world) 4) \<and>
   \<not> filter_trigger_recorder ex_person_filter"
proof -
  have "objs (filter_zone ex_object_in_polygon (=) 1 7 [4, 7] ex_world) 4 =
      marked ex_zone (ex_objs 4)"
    using filter_zone_objs [OF ex_loop_flagged, of "(=)" 7] by simp
  moreover have "trigger_recorder (marked ex_zone (ex_objs 4))"
    by (simp add: marked_def ex_defs)
  moreover have "object_filters (zones ex_world 1) (label (objs ex_world 4)) = Some ex_person_filter"
    "\<not> filter_trigger_recorder ex_person_filter"
    by (simp_all add: ex_defs)
  ultimately show ?thesis using ex_loop_flagged by simp
qed

text \<open>
  C5, amended. After \<^verbatim>\<open>filter_zone\<close>, the \<^verbatim>\<open>trigger_recorder\<close> flag of an accepted
  object is set if and only if it was set before the call or the filter of the object's
  label has \<^verbatim>\<open>trigger_recorder\<close>.
\<close>

theorem filter_zone_trigger_recorder:
  assumes "filter_zone_loop oip (zones w self) objects (objs w) [] [] = (\<sigma>', acc, calls)"
    and "r \<in> set acc"
  shows "\<exists>f. object_filters (zones w self) (label (objs w r)) = Some f \<and>
    trigger_recorder (objs (filter_zone oip eq self sf objects w) r) =
      (trigger_recorder (objs w r) \<or> filter_trigger_recorder f)"
proof -
  have "accepts oip (zones w self) (objs w r)"
    using assms filter_zone_loop_accepted [OF assms(1)] by simp
  then obtain f where f: "object_filters (zones w self) (label (objs w r)) = Some f"
    by (auto simp: accepts_def split: option.splits)
  have "objs (filter_zone oip eq self sf objects w) r = marked (zones w self) (objs w r)"
    using filter_zone_loop_store [OF assms(1), of r] filter_zone_objs [OF assms(1), of eq sf]
      assms(2) by simp
  with f show ?thesis by (simp add: marked_def)
qed

theorem filter_zone_trigger_recorder_witness:
  "5 \<in> set [0, 5 :: nat] \<and>
   object_filters (zones ex_world 1) (label (objs ex_world 5)) = Some ex_dog_filter \<and>
   filter_trigger_recorder ex_dog_filter \<and>
   \<not> trigger_recorder (objs ex_world 5) \<and>
   trigger_recorder (objs (filter_zone ex_object_in_polygon (=) 1 7 [0, 1, 2, 3, 5] ex_world) 5) \<and>
   object_filters (zones ex_world 1) (label (objs ex_world 0)) = Some ex_person_filter \<and>
   \<not> filter_trigger_recorder ex_person_filter \<and>
   \<not> trigger_recorder (objs ex_world 0) \<and>
   \<not> trigger_recorder (objs (filter_zone ex_object_in_polygon (=) 1 7 [0, 1, 2, 3, 5] ex_world) 0)"
proof -
  have h5: "5 \<in> set [0, 5 :: nat]" and h0: "0 \<in> set [0, 5 :: nat]" by simp_all
  have f: "object_filters (zones ex_world 1) (label (objs ex_world 5)) = Some ex_dog_filter"
    "filter_trigger_recorder ex_dog_filter" "\<not> trigger_recorder (objs ex_world 5)"
    "object_filters (zones ex_world 1) (label (objs ex_world 0)) = Some ex_person_filter"
    "\<not> filter_trigger_recorder ex_person_filter" "\<not> trigger_recorder (objs ex_world 0)"
    by (simp_all add: ex_defs)
  show ?thesis
    using filter_zone_trigger_recorder [OF ex_loop h5, of "(=)" 7]
      filter_zone_trigger_recorder [OF ex_loop h0, of "(=)" 7] f h5
    by simp
qed

text \<open>
  C6. When the new list differs from the stored one, \<^verbatim>\<open>objects_in_zone_setter\<close> stores
  the new list and dispatches one event, to the topic
  \<^verbatim>\<open>{camera_identifier}/zone/{zone_name}/objects\<close>, whose data are the camera
  identifier, the frame, the zone itself and the new list.
\<close>

theorem objects_in_zone_setter_publishes_change:
  assumes "\<not> list_eq eq (objs w) new (objects_in_zone (zones w self))"
  shows "objects_in_zone_setter eq self sf new w =
    w\<lparr>zones := (zones w)(self := (zones w self)\<lparr>objects_in_zone := new\<rparr>),
      dispatched := dispatched w @
        [\<lparr>topic = cam_identifier (camera (zones w self)) @ ''/zone/'' @
                  name (zones w self) @ ''/objects'',
          data = \<lparr>data_camera_identifier = cam_identifier (camera (zones w self)),
                   data_shared_frame = sf,
                   data_zone = self,
                   data_objects = new\<rparr>\<rparr>]\<rparr>"
  using assms
  by (simp add: objects_in_zone_setter_def EVENT_OBJECTS_IN_ZONE_def Let_def)

theorem objects_in_zone_setter_publishes_change_witness:
  "\<not> list_eq (=) (objs ex_world) [0, 5] (objects_in_zone (zones ex_world 1)) \<and>
   objects_in_zone (zones (objects_in_zone_setter (=) 1 7 [0, 5] ex_world) 1) = [0, 5] \<and>
   dispatched (objects_in_zone_setter (=) 1 7 [0, 5] ex_world) =
     [\<lparr>topic = ''cam1/zone/yard/objects'',
       data = \<lparr>data_camera_identifier = ''cam1'', data_shared_frame = 7, data_zone = 1,
                data_objects = [0, 5]\<rparr>\<rparr>]"
proof -
  have h: "\<not> list_eq (=) (objs ex_world) [0, 5] (objects_in_zone (zones ex_world 1))"
    by (simp add: ex_world_def ex_zone_def)
  show ?thesis
    using h objects_in_zone_setter_publishes_change [OF h, of 7]
    by (simp add: ex_world_def ex_zone_def ex_camera_def)
qed

text \<open>
  C8. The change detection is Python's \<^verbatim>\<open>==\<close> on the two lists: the setter leaves the
  state as it is, and dispatches nothing, exactly when the new and the stored list have
  the same length and at every index hold the same object or two objects that compare
  equal. So a new list of other objects with equal values suppresses the event.
\<close>

theorem change_detection_by_value:
  "(objects_in_zone_setter eq self sf new w = w \<longleftrightarrow>
      length new = length (objects_in_zone (zones w self)) \<and>
      (\<forall>i<length new.
         new ! i = objects_in_zone (zones w self) ! i \<or>
         eq (objs w (new ! i)) (objs w (objects_in_zone (zones w self) ! i)))) \<and>
   (dispatched (objects_in_zone_setter eq self sf new w) = dispatched w \<longleftrightarrow>
      length new = length (objects_in_zone (zones w self)) \<and>
      (\<forall>i<length new.
         new ! i = objects_in_zone (zones w self) ! i \<or>
         eq (objs w (new ! i)) (objs w (objects_in_zone (zones w self) ! i))))"
proof (cases "list_eq eq (objs w) new (objects_in_zone (zones w self))")
  case True
  then have "objects_in_zone_setter eq self sf new w = w"
    by (rule objects_in_zone_setter_same)
  with True show ?thesis
    by (simp add: list_eq_iff_nth)
next
  case False
  have "length (dispatched (objects_in_zone_setter eq self sf new w)) \<noteq> length (dispatched w)"
    using False by (simp add: objects_in_zone_setter_dispatched_length)
  then have "dispatched (objects_in_zone_setter eq self sf new w) \<noteq> dispatched w"
    "objects_in_zone_setter eq self sf new w \<noteq> w"
    by auto
  with False show ?thesis
    by (simp add: list_eq_iff_nth)
qed

theorem change_detection_by_value_witness:
  "(6::nat) \<noteq> 0 \<and> objs (ex_world_holding [0]) 6 = objs (ex_world_holding [0]) 0 \<and>
   objects_in_zone_setter (=) 1 7 [6] (ex_world_holding [0]) = ex_world_holding [0] \<and>
   dispatched (objects_in_zone_setter (=) 1 7 [5, 0] (ex_world_holding [0, 5])) \<noteq>
     dispatched (ex_world_holding [0, 5])"
proof -
  have v: "objs (ex_world_holding [0]) 6 = objs (ex_world_holding [0]) 0"
    by (simp add: ex_world_holding_def ex_world_def ex_objs_def)
  have s: "objects_in_zone (zones (ex_world_holding [0]) 1) = [0]"
    "objects_in_zone (zones (ex_world_holding [0, 5]) 1) = [0, 5]"
    by (simp_all add: ex_world_holding_def ex_world_def)
  have "objects_in_zone_setter (=) 1 7 [6] (ex_world_holding [0]) = ex_world_holding [0]"
    using change_detection_by_value [of "(=)" 1 7 "[6]" "ex_world_holding [0]"] v s
    by simp
  moreover have "dispatched (objects_in_zone_setter (=) 1 7 [5, 0] (ex_world_holding [0, 5])) \<noteq>
     dispatched (ex_world_holding [0, 5])"
  proof -
    have "\<not> (\<forall>i<length [5, 0 :: nat]. [5, 0] ! i = [0, 5 :: nat] ! i \<or>
        objs (ex_world_holding [0, 5]) ([5, 0] ! i) = objs (ex_world_holding [0, 5]) ([0, 5] ! i))"
      by (auto simp: ex_world_holding_def ex_world_def ex_objs_def ex_object_def intro!: exI [of _ 0])
    then show ?thesis
      using change_detection_by_value [of "(=)" 1 7 "[5, 0]" "ex_world_holding [0, 5]"] s
      by simp
  qed
  ultimately show ?thesis using v by simp
qed

text \<open>
  C10. A zone just built by \<^verbatim>\<open>Zone.__init__\<close> holds the empty list, so a first call of
  \<^verbatim>\<open>filter_zone\<close> that accepts nothing dispatches no event and leaves the zone as built.
\<close>

theorem fresh_zone_empty_no_event:
  assumes "Zone_init gen Filter_init cameras cid nvr_cfg zone_cfg = Inr z"
    and "zones w self = z"
    and "filter_zone_loop oip z objects (objs w) [] [] = (\<sigma>', [], calls)"
  shows "objects_in_zone z = [] \<and>
    dispatched (filter_zone oip eq self sf objects w) = dispatched w \<and>
    zones (filter_zone oip eq self sf objects w) = zones w"
proof -
  have e: "objects_in_zone z = []"
    using assms(1) by (auto simp: Zone_init_def split: option.splits)
  have "filter_zone oip eq self sf objects w =
      objects_in_zone_setter eq self sf [] (w\<lparr>objs := \<sigma>'\<rparr>)"
    using assms(2,3) by (simp add: filter_zone_unfold)
  also have "\<dots> = w\<lparr>objs := \<sigma>'\<rparr>"
    using e assms(2) by (simp add: objects_in_zone_setter_def)
  finally show ?thesis using e by simp
qed

theorem fresh_zone_empty_no_event_witness:
  "Zone_init (\<lambda>c. c) ex_Filter_init [''cam1'' \<mapsto> ex_camera] ''cam1''
     \<lparr>config_object_detector_mask = ()\<rparr> ex_zone_config = Inr ex_zone \<and>
   zones ex_world 1 = ex_zone \<and>
   filter_zone_loop ex_object_in_polygon ex_zone [1] (objs ex_world) [] [] =
     (ex_objs, [], [GetFilter 1 False]) \<and>
   objects_in_zone ex_zone = [] \<and>
   dispatched (filter_zone ex_object_in_polygon (=) 1 7 [1] ex_world) = []"
proof -
  have i: "Zone_init (\<lambda>c. c) ex_Filter_init [''cam1'' \<mapsto> ex_camera] ''cam1''
     \<lparr>config_object_detector_mask = ()\<rparr> ex_zone_config = Inr ex_zone"
    by (simp add: Zone_init_def ex_zone_config_def ex_zone_def ex_camera_def
        ex_person_filter_def ex_dog_filter_def)
  have z: "zones ex_world 1 = ex_zone"
    by (simp add: ex_world_def)
  have l: "filter_zone_loop ex_object_in_polygon ex_zone [1] (objs ex_world) [] [] =
     (ex_objs, [], [GetFilter 1 False])"
    by (simp add: ex_defs)
  have "dispatched ex_world = []"
    by (simp add: ex_world_def)
  then show ?thesis
    using fresh_zone_empty_no_event [OF i z l, of "(=)" 7] i z l by simp
qed

text \<open>
  C7. In \<^verbatim>\<open>filter_zone\<close> the geometry helper is called for a detection only right after
  the filter of its label has let it pass, and the filter is asked only right after the
  lookup has found it. So the helper is never called for a detection whose label has no
  filter, nor for one that its filter rejects, and the filter is never asked about a
  detection whose label has none.
\<close>

theorem geometry_only_after_filter:
  assumes "filter_zone_loop oip (zones w self) objects (objs w) [] [] = (\<sigma>', acc, calls)"
  shows "(\<forall>i r b. i < length calls \<and> calls ! i = ObjectInPolygon r b \<longrightarrow>
       2 \<le> i \<and> calls ! (i - 1) = FilterObject r True \<and> calls ! (i - 2) = GetFilter r True) \<and>
    (\<forall>i r b. i < length calls \<and> calls ! i = FilterObject r b \<longrightarrow>
       1 \<le> i \<and> calls ! (i - 1) = GetFilter r True) \<and>
    (\<forall>r b. object_filters (zones w self) (label (objs w r)) = None \<longrightarrow>
       FilterObject r b \<notin> set calls \<and> ObjectInPolygon r b \<notin> set calls) \<and>
    (\<forall>r f b. object_filters (zones w self) (label (objs w r)) = Some f \<and>
         \<not> filter_object f (objs w r) \<longrightarrow>
       ObjectInPolygon r b \<notin> set calls)"
proof -
  have "calls_in_order calls"
    using assms by (rule filter_zone_loop_in_order)
  then have order: "(\<forall>i r b. i < length calls \<and> calls ! i = ObjectInPolygon r b \<longrightarrow>
       2 \<le> i \<and> calls ! (i - 1) = FilterObject r True \<and> calls ! (i - 2) = GetFilter r True) \<and>
    (\<forall>i r b. i < length calls \<and> calls ! i = FilterObject r b \<longrightarrow>
       1 \<le> i \<and> calls ! (i - 1) = GetFilter r True)"
    unfolding calls_in_order_def by blast
  have none: "FilterObject r b \<notin> set calls \<and> ObjectInPolygon r b \<notin> set calls"
    if "object_filters (zones w self) (label (objs w r)) = None" for r b
  proof -
    from that have "\<not> passes (zones w self) (objs w r)"
      by (simp add: passes_def)
    then show ?thesis
      using filter_zone_loop_no_polygon_call [OF assms] filter_zone_loop_no_filter_call [OF assms that]
      by blast
  qed
  have fails: "ObjectInPolygon r b \<notin> set calls"
    if "object_filters (zones w self) (label (objs w r)) = Some f"
      and "\<not> filter_object f (objs w r)" for r f b
  proof -
    from that have "\<not> passes (zones w self) (objs w r)"
      by (simp add: passes_def)
    then show ?thesis
      by (rule filter_zone_loop_no_polygon_call [OF assms])
  qed
  from order none fails show ?thesis by blast
qed


theorem geometry_only_after_filter_witness:
  "snd (snd (filter_zone_loop ex_object_in_polygon (zones ex_world 1) [0, 1, 2, 3, 5]
      (objs ex_world) [] [])) ! 6 = ObjectInPolygon 2 False \<and>
   snd (snd (filter_zone_loop ex_object_in_polygon (zones ex_world 1) [0, 1, 2, 3, 5]
      (objs ex_world) [] [])) ! 5 = FilterObject 2 True \<and>
   snd (snd (filter_zone_loop ex_object_in_polygon (zones ex_world 1) [0, 1, 2, 3, 5]
      (objs ex_world) [] [])) ! 4 = GetFilter 2 True \<and>
   object_filters (zones ex_world 1) (label (objs ex_world 1)) = None \<and>
   ObjectInPolygon 1 True \<notin> set (snd (snd (filter_zone_loop ex_object_in_polygon
      (zones ex_world 1) [0, 1, 2, 3, 5] (objs ex_world) [] []))) \<and>
   object_filters (zones ex_world 1) (label (objs ex_world 3)) = Some ex_person_filter \<and>
   \<not> filter_object ex_person_filter (objs ex_world 3) \<and>
   ObjectInPolygon 3 True \<notin> set (snd (snd (filter_zone_loop ex_object_in_polygon
      (zones ex_world 1) [0, 1, 2, 3, 5] (objs ex_world) [] [])))"
proof -
  have h: "object_filters (zones ex_world 1) (label (objs ex_world 1)) = None"
    "object_filters (zones ex_world 1) (label (objs ex_world 3)) = Some ex_person_filter"
    "\<not> filter_object ex_person_filter (objs ex_world 3)"
    by (simp_all add: ex_defs)
  have n: "ObjectInPolygon 1 True \<notin> set [GetFilter 0 True, FilterObject 0 True, ObjectInPolygon 0 True,
      GetFilter 1 False,
      GetFilter 2 True, FilterObject 2 True, ObjectInPolygon 2 False,
      GetFilter 3 True, FilterObject 3 False,
      GetFilter 5 True, FilterObject 5 True, ObjectInPolygon 5 True]"
    "ObjectInPolygon 3 True \<notin> set [GetFilter 0 True, FilterObject 0 True, ObjectInPolygon 0 True,
      GetFilter 1 False,
      GetFilter 2 True, FilterObject 2 True, ObjectInPolygon 2 False,
      GetFilter 3 True, FilterObject 3 False,
      GetFilter 5 True, FilterObject 5 True, ObjectInPolygon 5 True]"
    using geometry_only_after_filter [OF ex_loop] h by blast+
  show ?thesis
    using h n ex_loop by simp
qed

text \<open>
  C4. Two calls of \<^verbatim>\<open>filter_zone\<close> in a row whose accepted lists compare equal (the
  second to the first, by Python's \<^verbatim>\<open>==\<close>, in the state the second call compares in):
  the second call dispatches no event and leaves the stored list as it is, so that the
  two calls dispatch at most one event. \<^verbatim>\<open>DetectedObject.__eq__\<close> is taken to be
  transitive, as an equality of values is, and the zone to hold objects that carry its
  marks, as it does from its construction on.
\<close>

theorem second_evaluation_is_noop:
  fixes w :: "'e world" and oip eq self sf1 batch1
  defines "w1 \<equiv> filter_zone oip eq self sf1 batch1 w"
  assumes trans: "\<And>a b c. eq a b \<Longrightarrow> eq b c \<Longrightarrow> eq a c"
    and inv: "stored_marked w self"
    and l1: "filter_zone_loop oip (zones w self) batch1 (objs w) [] [] = (\<sigma>1, acc1, calls1)"
    and l2: "filter_zone_loop oip (zones w1 self) batch2 (objs w1) [] [] = (\<sigma>2, acc2, calls2)"
    and same: "list_eq eq \<sigma>2 acc2 acc1"
  shows "dispatched (filter_zone oip eq self sf2 batch2 w1) = dispatched w1 \<and>
    zones (filter_zone oip eq self sf2 batch2 w1) = zones w1 \<and>
    length (dispatched (filter_zone oip eq self sf2 batch2 w1)) \<le> Suc (length (dispatched w))"
proof -
  let ?z = "zones w self"
  let ?s1 = "objects_in_zone (zones w1 self)"
  have w1: "w1 = objects_in_zone_setter eq self sf1 acc1 (w\<lparr>objs := \<sigma>1\<rparr>)"
    unfolding w1_def by (rule filter_zone_unfold [OF l1])
  have o1: "objs w1 = \<sigma>1"
    by (simp add: w1 objects_in_zone_setter_objs)
  have z1: "zones w1 self = ?z\<lparr>objects_in_zone := ?s1\<rparr>"
    by (simp add: w1 objects_in_zone_setter_zone)
  have s1: "?s1 = acc1 \<or> ?s1 = objects_in_zone ?z \<and> list_eq eq \<sigma>1 acc1 (objects_in_zone ?z)"
    by (simp add: w1 objects_in_zone_setter_zone)
  have e1: "list_eq eq \<sigma>1 acc1 ?s1"
    using s1 by (auto simp: list_eq_refl)
  have st1: "\<sigma>1 r = (if r \<in> set acc1 then marked ?z (objs w r) else objs w r)" for r
    by (rule filter_zone_loop_store [OF l1])
  have m1: "marked ?z (\<sigma>1 r) = \<sigma>1 r" if "r \<in> set acc1 \<union> set ?s1" for r
  proof (cases "r \<in> set acc1")
    case True
    then show ?thesis by (simp add: st1 marked_idem)
  next
    case False
    with that s1 have "r \<in> set (objects_in_zone ?z)" by auto
    with inv have "marked ?z (objs w r) = objs w r"
      by (simp add: stored_marked_def)
    with False show ?thesis by (simp add: st1)
  qed
  have l2': "filter_zone_loop oip ?z batch2 \<sigma>1 [] [] = (\<sigma>2, acc2, calls2)"
    using l2 o1 z1 filter_zone_loop_zone_cong [of oip ?s1 ?z batch2 \<sigma>1 "[]" "[]"] by simp
  have st2: "\<sigma>2 r = (if r \<in> set acc2 then marked ?z (\<sigma>1 r) else \<sigma>1 r)" for r
    by (rule filter_zone_loop_store [OF l2'])
  have k: "\<sigma>2 r = \<sigma>1 r" if "r \<in> set acc1 \<union> set ?s1" for r
    using m1 [OF that] st2 [of r] by simp
  have e2: "list_eq eq \<sigma>2 acc1 ?s1"
    using k e1 by (rule list_eq_cong_imp)
  have e3: "list_eq eq \<sigma>2 acc2 ?s1"
    using trans same e2 by (rule list_eq_trans)
  have "filter_zone oip eq self sf2 batch2 w1 =
      objects_in_zone_setter eq self sf2 acc2 (w1\<lparr>objs := \<sigma>2\<rparr>)"
    by (rule filter_zone_unfold [OF l2])
  also have "\<dots> = w1\<lparr>objs := \<sigma>2\<rparr>"
    using e3 by (simp add: objects_in_zone_setter_same)
  finally have w2: "filter_zone oip eq self sf2 batch2 w1 = w1\<lparr>objs := \<sigma>2\<rparr>" .
  have "length (dispatched w1) \<le> Suc (length (dispatched w))"
    by (simp add: w1 objects_in_zone_setter_dispatched_length)
  with w2 show ?thesis by simp
qed

theorem second_evaluation_is_noop_witness:
  "stored_marked ex_world 1 \<and>
   (6::nat) \<noteq> 0 \<and>
   list_eq (=) (ex_objs(0 := marked ex_zone (ex_objs 0), 6 := marked ex_zone (ex_objs 6))) [6] [0] \<and>
   dispatched (filter_zone ex_object_in_polygon (=) 1 8 [6]
       (filter_zone ex_object_in_polygon (=) 1 7 [0, 1] ex_world)) =
     dispatched (filter_zone ex_object_in_polygon (=) 1 7 [0, 1] ex_world) \<and>
   objects_in_zone (zones (filter_zone ex_object_in_polygon (=) 1 8 [6]
       (filter_zone ex_object_in_polygon (=) 1 7 [0, 1] ex_world)) 1) = [0] \<and>
   length (dispatched (filter_zone ex_object_in_polygon (=) 1 8 [6]
       (filter_zone ex_object_in_polygon (=) 1 7 [0, 1] ex_world))) = 1"
proof -
  have t: "\<And>a b c :: ex_extent detected_object. a = b \<Longrightarrow> b = c \<Longrightarrow> a = c"
    by simp
  have inv: "stored_marked ex_world 1"
    by (simp add: stored_marked_def ex_world_def ex_zone_def)
  have same: "list_eq (=)
      (ex_objs(0 := marked ex_zone (ex_objs 0), 6 := marked ex_zone (ex_objs 6))) [6] [0]"
    by (simp add: ex_objs_def)
  note n = second_evaluation_is_noop [OF t inv ex_first_loop ex_second_loop same, where ?sf2.0 = 8]
  have "objects_in_zone (zones (filter_zone ex_object_in_polygon (=) 1 7 [0, 1] ex_world) 1) = [0]"
    "length (dispatched (filter_zone ex_object_in_polygon (=) 1 7 [0, 1] ex_world)) = 1"
    unfolding ex_first by simp_all
  with n inv same show ?thesis by simp
qed

end
